theory Spec2Isabelle
  imports Complex_Main "HOL-Library.List_Lexorder" "HOL-Library.Char_ord"
begin

section \<open>Text and paths\<close>

text \<open>
  The analyzer of \<^verbatim>\<open>CppProjectAnalyzer.py\<close> reads files as text, finds include
  directives with regular expressions and resolves them against the project tree.
  File contents are strings over 8-bit characters (text in the Latin-1 range).
  A path is the list of its components below the file-system root, as
  \<^verbatim>\<open>pathlib.PurePosixPath.parts\<close> gives them without the leading \<^verbatim>\<open>/\<close>.
\<close>

type_synonym path = "string list"

text \<open>Python's \<^verbatim>\<open>\s\<close> on code points below 256.\<close>

definition is_space :: "char \<Rightarrow> bool" where
  "is_space c =
     (let n = (of_char c :: nat)
      in (9 \<le> n \<and> n \<le> 13) \<or> (28 \<le> n \<and> n \<le> 32) \<or> n = 133 \<or> n = 160)"

fun starts_with :: "string \<Rightarrow> string \<Rightarrow> bool" where
  "starts_with [] s = True"
| "starts_with (p # ps) [] = False"
| "starts_with (p # ps) (c # cs) = (p = c \<and> starts_with ps cs)"

text \<open>\<^verbatim>\<open>str.split('/')\<close>: the pieces between slashes, empty pieces included.\<close>

fun split_slash :: "string \<Rightarrow> string list" where
  "split_slash [] = [[]]"
| "split_slash (c # cs) =
     (if c = CHR ''/'' then [] # split_slash cs
      else (case split_slash cs of
              [] \<Rightarrow> [[c]]
            | w # ws \<Rightarrow> (c # w) # ws))"

text \<open>
  The components pathlib keeps when it parses a string: empty pieces and \<^verbatim>\<open>.\<close> are
  dropped, \<^verbatim>\<open>..\<close> is kept.
\<close>

definition parse_parts :: "string \<Rightarrow> string list" where
  "parse_parts s = filter (\<lambda>w. w \<noteq> [] \<and> w \<noteq> ''.'') (split_slash s)"

text \<open>\<^verbatim>\<open>p / s\<close>: an absolute \<^verbatim>\<open>s\<close> replaces \<^verbatim>\<open>p\<close>.\<close>

definition path_join :: "path \<Rightarrow> string \<Rightarrow> path" where
  "path_join p s = (if starts_with ''/'' s then parse_parts s else p @ parse_parts s)"

definition parent :: "path \<Rightarrow> path" where
  "parent p = butlast p"

text \<open>
  \<^verbatim>\<open>Path.suffix\<close>: the final component from its last dot on, when that dot is
  neither its first nor its last character; empty otherwise.
\<close>

definition name_suffix :: "string \<Rightarrow> string" where
  "name_suffix n =
     (let after = rev (takeWhile (\<lambda>c. c \<noteq> CHR ''.'') (rev n))
      in if CHR ''.'' \<in> set n \<and> after \<noteq> [] \<and> length after + 1 < length n
         then CHR ''.'' # after else [])"

definition suffix :: "path \<Rightarrow> string" where
  "suffix p = (case rev p of [] \<Rightarrow> [] | n # _ \<Rightarrow> name_suffix n)"

text \<open>\<^verbatim>\<open>str(p.relative_to(root))\<close> for a path given by its components below the root.\<close>

fun join_slash :: "string list \<Rightarrow> string" where
  "join_slash [] = []"
| "join_slash [w] = w"
| "join_slash (w # v # ws) = w @ ''/'' @ join_slash (v # ws)"

text \<open>\<^verbatim>\<open>s.strip('"')\<close>.\<close>

definition strip_quotes :: "string \<Rightarrow> string" where
  "strip_quotes s =
     rev (dropWhile (\<lambda>c. c = CHR 0x22) (rev (dropWhile (\<lambda>c. c = CHR 0x22) s)))"

section \<open>The two include patterns\<close>

text \<open>
  Both patterns of the source begin with \<^verbatim>\<open>^\s*#\s*include\<close>. Each greedy piece is
  followed by a character outside its class, so a match is found without backtracking:
  skip white space, read the hash sign, skip white space, read the word.
  \<open>include_head\<close> returns the text after the word.
\<close>

definition include_head :: "string \<Rightarrow> string option" where
  "include_head s =
     (case dropWhile is_space s of
        [] \<Rightarrow> None
      | c # r \<Rightarrow>
          if c = CHR ''#'' then
            (let t = dropWhile is_space r
             in if starts_with ''include'' t then Some (drop 7 t) else None)
          else None)"

definition name_char :: "char \<Rightarrow> bool" where
  "name_char c = (c \<noteq> CHR ''>'' \<and> c \<noteq> CHR 0x22)"

text \<open>
  \<^verbatim>\<open>include_pattern\<close> of \<^verbatim>\<open>_analyze_file_includes\<close> continues with
  \<^verbatim>\<open>\s*[<"]([^>"]+)[">]\<close>: an opening delimiter, the longest non-empty run free of
  closing delimiters (line breaks included), and a closing delimiter. The value is the
  captured group.
\<close>

definition include_pattern_match :: "string \<Rightarrow> string option" where
  "include_pattern_match s =
     (case include_head s of
        None \<Rightarrow> None
      | Some r \<Rightarrow>
          (case dropWhile is_space r of
             [] \<Rightarrow> None
           | d # t \<Rightarrow>
               if d = CHR ''<'' \<or> d = CHR 0x22 then
                 (let name = takeWhile name_char t; rest = dropWhile name_char t
                  in if name = [] \<or> rest = [] then None else Some name)
               else None))"

text \<open>
  \<^verbatim>\<open>include_pattern.findall(content)\<close>. The pattern is compiled without
  \<^verbatim>\<open>re.MULTILINE\<close>, so its \<^verbatim>\<open>^\<close> holds at offset 0 only: the scan can match once,
  at the very start of the text, and at no later offset.
\<close>

definition findall_includes :: "string \<Rightarrow> string list" where
  "findall_includes content =
     (case include_pattern_match content of None \<Rightarrow> [] | Some n \<Rightarrow> [n])"

lemma include_head_shorter: "include_head s = Some r \<Longrightarrow> length r < length s"
proof -
  assume h: "include_head s = Some r"
  have dw: "\<And>xs. length (dropWhile is_space xs) \<le> length xs"
    by (simp add: length_dropWhile_le)
  from h obtain c u where cu: "dropWhile is_space s = c # u"
    and r: "r = drop 7 (dropWhile is_space u)"
    by (auto simp: include_head_def Let_def split: list.splits if_splits)
  have "length r \<le> length u" using r dw [of u] by simp
  moreover have "length (c # u) \<le> length s" using dw [of s] cu by simp
  ultimately show ?thesis by simp
qed

text \<open>
  \<^verbatim>\<open>len(re.findall(r'^\s*#\s*include', content, re.MULTILINE))\<close>: the scan goes through
  the text from left to right; \<^verbatim>\<open>^\<close> holds at offset 0 and after each line feed
  (the flag \<open>bol\<close>); after a match the scan resumes behind it, where the previous
  character is the final letter of the word.
\<close>

function count_includes_from :: "bool \<Rightarrow> string \<Rightarrow> nat" where
  "count_includes_from bol [] = 0"
| "count_includes_from bol (c # cs) =
     (case (if bol then include_head (c # cs) else None) of
        Some r \<Rightarrow> Suc (count_includes_from False r)
      | None \<Rightarrow> count_includes_from (c = CHR 0x0A) cs)"
  by pat_completeness auto
termination
  by (relation "measure (\<lambda>(bol, s). length s)")
     (auto split: if_splits dest: include_head_shorter)

definition count_include_directives :: "string \<Rightarrow> nat" where
  "count_include_directives content = count_includes_from True content"

section \<open>Shell-style matching\<close>

text \<open>
  \<^verbatim>\<open>fnmatch.fnmatch(name, pattern)\<close> on POSIX for patterns made of literal characters,
  \<^verbatim>\<open>*\<close> (any run of characters, slashes included) and \<^verbatim>\<open>?\<close> (any one character).
  The whole name has to match. Bracket expressions are not part of this model.
\<close>

fun fnmatch :: "string \<Rightarrow> string \<Rightarrow> bool" where
  "fnmatch [] [] = True"
| "fnmatch (c # cs) [] = False"
| "fnmatch [] (p # ps) = (p = CHR ''*'' \<and> fnmatch [] ps)"
| "fnmatch (c # cs) (p # ps) =
     (if p = CHR ''*'' then fnmatch (c # cs) ps \<or> fnmatch cs (p # ps)
      else if p = CHR ''?'' then fnmatch cs ps
      else c = p \<and> fnmatch cs ps)"

section \<open>Configuration, issues and the analyzer's state\<close>

text \<open>\<^verbatim>\<open>AnalysisConfig\<close> of \<^verbatim>\<open>config/__init__.py\<close> with its defaults.\<close>

record AnalysisConfig =
  max_header_includes :: int
  max_file_complexity :: int
  max_header_size :: int
  pch_max_headers :: int
  enable_template_analysis :: bool
  enable_circular_dep_check :: bool
  enable_unused_header_check :: bool
  parallel_analysis :: bool
  analysis_timeout :: int

definition default_AnalysisConfig :: AnalysisConfig where
  "default_AnalysisConfig =
     \<lparr>max_header_includes = 20, max_file_complexity = 50, max_header_size = 10000,
      pch_max_headers = 25, enable_template_analysis = True,
      enable_circular_dep_check = True, enable_unused_header_check = True,
      parallel_analysis = True, analysis_timeout = 30\<rparr>"

datatype Severity = LOW | MEDIUM | HIGH

datatype issue_kind =
  EXCESSIVE_INCLUDES | HIGH_COMPLEXITY | LARGE_HEADER | CIRCULAR_DEPENDENCY | UNUSED_HEADER

text \<open>
  An issue is a dictionary with the keys \<^verbatim>\<open>type\<close>, \<^verbatim>\<open>file\<close>, \<^verbatim>\<open>severity\<close>,
  \<^verbatim>\<open>message\<close> and \<^verbatim>\<open>suggestion\<close>. The value under \<^verbatim>\<open>file\<close> is a path or
  \<^verbatim>\<open>Cycle i\<close>. The message is kept by the values the source interpolates into its
  fixed text; the suggestion is a fixed text for each kind and is left out.
\<close>

datatype subject = File path | Cycle nat

datatype message =
  IncludeCount nat int
| ComplexityScore nat
| HeaderBytes nat
| CyclePath "path list"
| NotIncluded

record issue =
  issue_type :: issue_kind
  issue_file :: subject
  severity :: Severity
  issue_message :: message

text \<open>
  What the analyzer asks of its surroundings. The file system answers
  \<^verbatim>\<open>Path.exists\<close>, \<^verbatim>\<open>Path.is_file\<close>, \<^verbatim>\<open>project_path.glob\<close> and
  \<^verbatim>\<open>project_path.rglob\<close> (their results as components below the project directory, in
  the order they are produced; \<open>None\<close> when \<^verbatim>\<open>rglob\<close> rejects the pattern with an
  exception), and the two ways the source opens a file: as UTF-8 with undecodable bytes
  ignored (\<open>fs_read\<close>) and with the default encoding (\<open>fs_read_default\<close>);
  \<open>None\<close> when opening or reading raises.
  \<open>re_count\<close> is \<^verbatim>\<open>len(pattern.findall(content))\<close> for the five patterns of
  \<^verbatim>\<open>_calculate_complexity\<close> other than the include pattern.
  \<open>set_order\<close> is the order in which a Python \<^verbatim>\<open>set\<close> hands out its elements, given
  in the order they were added: it depends on the hash values of the elements, which for
  strings and paths change from one interpreter run to the next.
\<close>

datatype lexical_pattern = TEMPLATE_DECL | TEMPLATE_SPEC | CLASS_DECL | FUNCTION_DEF | MACRO_DEF

record env =
  fs_exists :: "path \<Rightarrow> bool"
  fs_is_file :: "path \<Rightarrow> bool"
  fs_glob :: "string \<Rightarrow> path list"
  fs_rglob :: "string \<Rightarrow> path list option"
  fs_read :: "path \<Rightarrow> string option"
  fs_read_default :: "path \<Rightarrow> string option"
  re_count :: "lexical_pattern \<Rightarrow> string \<Rightarrow> nat"
  set_order :: "path list \<Rightarrow> path list"

text \<open>
  The fields of \<^verbatim>\<open>CppProjectAnalyzer\<close> that the analysis reads and writes.
  A Python set is the list of its elements in the order they were added;
  \<^verbatim>\<open>include_graph\<close> (a \<^verbatim>\<open>defaultdict(set)\<close>) and \<^verbatim>\<open>build_times_estimate\<close> (a
  \<^verbatim>\<open>dict\<close>) are association lists in insertion order; the two counters are total
  functions with value 0 off their keys. Estimated times are floating-point numbers in
  the source and exact rationals here.
\<close>

record analyzer =
  project_path :: path
  ignore_patterns :: "string list"
  analysis_config :: AnalysisConfig
  files :: "path list"
  include_graph :: "(path \<times> path list) list"
  dependency_count :: "path \<Rightarrow> nat"
  file_sizes :: "path \<rightharpoonup> nat"
  header_frequency :: "string \<Rightarrow> nat"
  circular_deps :: "path list list"
  unused_headers :: "path list"
  issues :: "issue list"
  build_times_estimate :: "(path \<times> rat) list"

text \<open>The state \<^verbatim>\<open>__init__\<close> sets up.\<close>

definition init :: "path \<Rightarrow> string list \<Rightarrow> AnalysisConfig \<Rightarrow> analyzer" where
  "init project_dir pats cfg =
     \<lparr>project_path = project_dir, ignore_patterns = pats, analysis_config = cfg, files = [],
      include_graph = [], dependency_count = (\<lambda>_. 0), file_sizes = Map.empty,
      header_frequency = (\<lambda>_. 0), circular_deps = [], unused_headers = [], issues = [],
      build_times_estimate = []\<rparr>"

definition pyset_add :: "'a \<Rightarrow> 'a list \<Rightarrow> 'a list" where
  "pyset_add x s = (if x \<in> set s then s else s @ [x])"

text \<open>\<^verbatim>\<open>include_graph.get(file_path, set())\<close>.\<close>

definition graph_get :: "(path \<times> path list) list \<Rightarrow> path \<Rightarrow> path list" where
  "graph_get g f = (case map_of g f of None \<Rightarrow> [] | Some ds \<Rightarrow> ds)"

text \<open>\<^verbatim>\<open>include_graph[file_path].add(resolved_path)\<close>.\<close>

fun graph_add :: "(path \<times> path list) list \<Rightarrow> path \<Rightarrow> path \<Rightarrow> (path \<times> path list) list" where
  "graph_add [] f r = [(f, [r])]"
| "graph_add ((k, ds) # g) f r =
     (if k = f then (k, pyset_add r ds) # g else (k, ds) # graph_add g f r)"


section \<open>File discovery\<close>

definition default_ignore_patterns :: "string list" where
  "default_ignore_patterns =
     [''build/'', ''cmake-build-'', ''.git/'', ''third_party/'',
      ''external/'', ''test/'', ''tests/'', ''benchmark/'', ''vendor/'',
      ''node_modules/'', ''__pycache__/'', ''.vscode/'', ''.vs/'',
      ''Debug/'', ''Release/'', ''x64/'', ''x86/'']"

text \<open>
  \<^verbatim>\<open>_should_ignore_file\<close>: the path relative to the project directory, as a string,
  is matched against every default and every user pattern.
\<close>

definition should_ignore_file :: "analyzer \<Rightarrow> path \<Rightarrow> bool" where
  "should_ignore_file a file_path =
     (let all_ignore_patterns = default_ignore_patterns @ ignore_patterns a;
          file_str = join_slash (drop (length (project_path a)) file_path)
      in list_ex (\<lambda>pattern. fnmatch file_str pattern) all_ignore_patterns)"

definition cpp_extensions :: "string list" where
  "cpp_extensions = [''.cpp'', ''.cc'', ''.cxx'', ''.c++'', ''.C'']"

definition header_extensions :: "string list" where
  "header_extensions = [''.h'', ''.hpp'', ''.hh'', ''.hxx'', ''.h++'', ''.inl'']"

text \<open>
  \<^verbatim>\<open>discover_files\<close>: one recursive glob for each extension, the ignored paths
  dropped, the rest sorted. Paths compare by their components, as pathlib compares them.
  The source walks the union of the two extension sets in set order, which the sort makes
  irrelevant.
\<close>

definition discover_files :: "env \<Rightarrow> analyzer \<Rightarrow> analyzer" where
  "discover_files e a =
     (let all_files =
            concat (map (\<lambda>ext.
                filter (\<lambda>file_path. \<not> should_ignore_file a file_path)
                  (map (\<lambda>rel. project_path a @ rel) (fs_glob e (''**/*'' @ ext))))
              (cpp_extensions @ header_extensions))
      in a\<lparr>files := sort all_files\<rparr>)"

section \<open>Include resolution and the per-file pass\<close>

datatype error = PatternError

text \<open>
  The loop of \<^verbatim>\<open>_resolve_include_path\<close> over the extensions: the name below the
  project directory, then the first regular file of a recursive search for the same name,
  then the next extension.
\<close>

fun resolve_in_project :: "env \<Rightarrow> path \<Rightarrow> string \<Rightarrow> string list \<Rightarrow> error + path option" where
  "resolve_in_project e project_dir include_name [] = Inr None"
| "resolve_in_project e project_dir include_name (ext # exts) =
     (let candidate_path = include_name @ ext;
          candidate = path_join project_dir candidate_path
      in if fs_exists e candidate then Inr (Some candidate)
         else (case fs_rglob e candidate_path of
                 None \<Rightarrow> Inl PatternError
               | Some found \<Rightarrow>
                   (case find (fs_is_file e) (map (\<lambda>rel. project_dir @ rel) found) of
                      Some header_file \<Rightarrow> Inr (Some header_file)
                    | None \<Rightarrow> resolve_in_project e project_dir include_name exts)))"

definition search_extensions :: "string list" where
  "search_extensions = ['''', ''.h'', ''.hpp'', ''.hh'', ''.hxx'']"

definition resolve_include_path :: "env \<Rightarrow> analyzer \<Rightarrow> path \<Rightarrow> string \<Rightarrow> error + path option" where
  "resolve_include_path e a source_file include_name =
     (if starts_with ''<'' include_name \<and> CHR ''>'' \<in> set include_name then Inr None
      else if starts_with [CHR 0x22] include_name then
        (let include_name' = strip_quotes include_name;
             candidate = path_join (parent source_file) include_name'
         in if fs_exists e candidate then Inr (Some candidate)
            else resolve_in_project e (project_path a) include_name' search_extensions)
      else resolve_in_project e (project_path a) include_name search_extensions)"

text \<open>
  The body of the loop over the names found in a file: count the name, resolve it, and
  for a resolved path add it to the including file's set and count it for the target.
  An exception of the resolver leaves the loop with the state reached so far.
\<close>

definition add_edge :: "analyzer \<Rightarrow> path \<Rightarrow> path \<Rightarrow> analyzer" where
  "add_edge a file_path resolved_path =
     a\<lparr>include_graph := graph_add (include_graph a) file_path resolved_path,
       dependency_count :=
         (dependency_count a)(resolved_path := dependency_count a resolved_path + 1)\<rparr>"

definition process_include :: "env \<Rightarrow> path \<Rightarrow> string \<Rightarrow> analyzer \<Rightarrow> error option \<times> analyzer" where
  "process_include e file_path included a =
     (let a1 = a\<lparr>header_frequency :=
                  (header_frequency a)(included := header_frequency a included + 1)\<rparr>
      in case resolve_include_path e a1 file_path included of
           Inl err \<Rightarrow> (Some err, a1)
         | Inr None \<Rightarrow> (None, a1)
         | Inr (Some resolved_path) \<Rightarrow> (None, add_edge a1 file_path resolved_path))"

fun include_loop :: "env \<Rightarrow> path \<Rightarrow> string list \<Rightarrow> analyzer \<Rightarrow> error option \<times> analyzer" where
  "include_loop e file_path [] a = (None, a)"
| "include_loop e file_path (included # includes) a =
     (case process_include e file_path included a of
        (Some err, a') \<Rightarrow> (Some err, a')
      | (None, a') \<Rightarrow> include_loop e file_path includes a')"

text \<open>
  \<^verbatim>\<open>_calculate_complexity\<close>: the weighted match counts. The count of macro
  definitions enters with weight 0.5 and the sum is cut to an integer at the end.
\<close>

definition calculate_complexity :: "env \<Rightarrow> AnalysisConfig \<Rightarrow> string \<Rightarrow> nat" where
  "calculate_complexity e cfg content =
     (let templates =
            (if enable_template_analysis cfg
             then re_count e TEMPLATE_DECL content * 3 + re_count e TEMPLATE_SPEC content * 2
             else 0)
      in templates
         + count_include_directives content
         + re_count e CLASS_DECL content * 2
         + re_count e FUNCTION_DEF content
         + re_count e MACRO_DEF content div 2)"

definition diagnosed_header_suffixes :: "string list" where
  "diagnosed_header_suffixes = [''.h'', ''.hpp'', ''.hh'']"

text \<open>\<^verbatim>\<open>_detect_file_issues\<close>: three independent checks, in this order.\<close>

definition detect_file_issues :: "env \<Rightarrow> path \<Rightarrow> string \<Rightarrow> analyzer \<Rightarrow> analyzer" where
  "detect_file_issues e file_path content a =
     (let cfg = analysis_config a;
          include_count = count_include_directives content;
          complexity_score = calculate_complexity e cfg content;
          file_size = length content;
          i1 = (if int include_count > max_header_includes cfg
                then [\<lparr>issue_type = EXCESSIVE_INCLUDES, issue_file = File file_path,
                       severity = MEDIUM,
                       issue_message = IncludeCount include_count (max_header_includes cfg)\<rparr>]
                else []);
          i2 = (if int complexity_score > max_file_complexity cfg
                then [\<lparr>issue_type = HIGH_COMPLEXITY, issue_file = File file_path,
                       severity = HIGH, issue_message = ComplexityScore complexity_score\<rparr>]
                else []);
          i3 = (if suffix file_path \<in> set diagnosed_header_suffixes
                   \<and> int file_size > max_header_size cfg
                then [\<lparr>issue_type = LARGE_HEADER, issue_file = File file_path,
                       severity = MEDIUM, issue_message = HeaderBytes file_size\<rparr>]
                else [])
      in a\<lparr>issues := issues a @ i1 @ i2 @ i3\<rparr>)"

text \<open>
  \<^verbatim>\<open>_analyze_file_includes\<close>. Everything happens inside one \<^verbatim>\<open>try\<close>: a file that
  cannot be read changes nothing, and an exception while resolving skips the rest of the
  file, its issue checks included.
\<close>

definition analyze_file_includes :: "env \<Rightarrow> path \<Rightarrow> analyzer \<Rightarrow> analyzer" where
  "analyze_file_includes e file_path a =
     (case fs_read e file_path of
        None \<Rightarrow> a
      | Some content \<Rightarrow>
          (let a1 = a\<lparr>file_sizes := (file_sizes a)(file_path \<mapsto> length content)\<rparr>
           in case include_loop e file_path (findall_includes content) a1 of
                (Some err, a2) \<Rightarrow> a2
              | (None, a2) \<Rightarrow> detect_file_issues e file_path content a2))"

text \<open>\<^verbatim>\<open>_sequential_analyze_files\<close>.\<close>

definition sequential_analyze_files :: "env \<Rightarrow> analyzer \<Rightarrow> analyzer" where
  "sequential_analyze_files e a = foldl (\<lambda>s file_path. analyze_file_includes e file_path s) a (files a)"

section \<open>Graph checks\<close>

text \<open>
  \<^verbatim>\<open>_detect_circular_dependencies\<close>. The walk keeps \<^verbatim>\<open>visited\<close> and
  \<^verbatim>\<open>recursion_stack\<close>, both Python sets, and the cycles found. On reaching a file that
  is in \<^verbatim>\<open>recursion_stack\<close> it turns that set into a list and reports the part from
  the file on. The first argument bounds the depth of the recursion, as the interpreter's
  recursion limit does; \<open>None\<close> is the resulting exception.
\<close>

record walk =
  visited :: "path list"
  recursion_stack :: "path list"
  found :: "path list list"

fun dfs :: "nat \<Rightarrow> env \<Rightarrow> (path \<times> path list) list \<Rightarrow> path \<Rightarrow> walk \<Rightarrow> walk option"
  and dfs_each :: "nat \<Rightarrow> env \<Rightarrow> (path \<times> path list) list \<Rightarrow> path list \<Rightarrow> walk \<Rightarrow> walk option"
where
  "dfs 0 e g file_path w = None"
| "dfs (Suc n) e g file_path w =
     (if file_path \<in> set (recursion_stack w) then
        (let cycle = dropWhile (\<lambda>p. p \<noteq> file_path) (set_order e (recursion_stack w))
         in Some (w\<lparr>found := found w @ [cycle]\<rparr>))
      else if file_path \<in> set (visited w) then Some w
      else
        (case dfs_each n e g (set_order e (graph_get g file_path))
                (w\<lparr>visited := pyset_add file_path (visited w),
                   recursion_stack := pyset_add file_path (recursion_stack w)\<rparr>) of
           None \<Rightarrow> None
         | Some w' \<Rightarrow> Some (w'\<lparr>recursion_stack := removeAll file_path (recursion_stack w')\<rparr>)))"
| "dfs_each n e g [] w = Some w"
| "dfs_each n e g (dependency # rest) w =
     (case dfs n e g dependency w of
        None \<Rightarrow> None
      | Some w' \<Rightarrow> dfs_each n e g rest w')"

fun dfs_files :: "nat \<Rightarrow> env \<Rightarrow> (path \<times> path list) list \<Rightarrow> path list \<Rightarrow> walk \<Rightarrow> walk option" where
  "dfs_files n e g [] w = Some w"
| "dfs_files n e g (file_path # rest) w =
     (if file_path \<in> set (visited w) then dfs_files n e g rest w
      else (case dfs n e g file_path w of
              None \<Rightarrow> None
            | Some w' \<Rightarrow> dfs_files n e g rest w'))"

definition cycle_issue :: "nat \<times> path list \<Rightarrow> issue" where
  "cycle_issue ic =
     \<lparr>issue_type = CIRCULAR_DEPENDENCY, issue_file = Cycle (fst ic + 1), severity = HIGH,
      issue_message = CyclePath (snd ic)\<rparr>"

definition detect_circular_dependencies :: "nat \<Rightarrow> env \<Rightarrow> analyzer \<Rightarrow> analyzer option" where
  "detect_circular_dependencies limit e a =
     (case dfs_files limit e (include_graph a) (files a)
             \<lparr>visited = [], recursion_stack = [], found = circular_deps a\<rparr> of
        None \<Rightarrow> None
      | Some w \<Rightarrow>
          Some (a\<lparr>circular_deps := found w,
                  issues := issues a @ map cycle_issue (enumerate 0 (found w))\<rparr>))"

text \<open>
  \<^verbatim>\<open>_detect_unused_headers\<close>: the catalog files with one of three suffixes, minus
  everything that is in some file's set of the graph; one issue for each, in set order.
\<close>

definition unused_issue :: "path \<Rightarrow> issue" where
  "unused_issue header =
     \<lparr>issue_type = UNUSED_HEADER, issue_file = File header, severity = LOW,
      issue_message = NotIncluded\<rparr>"

definition detect_unused_headers :: "env \<Rightarrow> analyzer \<Rightarrow> analyzer" where
  "detect_unused_headers e a =
     (let included_headers = concat (map snd (include_graph a));
          all_headers = remdups (filter (\<lambda>f. suffix f \<in> set diagnosed_header_suffixes) (files a));
          unused = filter (\<lambda>h. h \<notin> set included_headers) all_headers
      in a\<lparr>unused_headers := unused,
           issues := issues a @ map unused_issue (set_order e unused)\<rparr>)"

section \<open>Build-time estimate\<close>









text \<open>The issues a step has appended to the list.\<close>

definition issues_added :: "analyzer \<Rightarrow> analyzer \<Rightarrow> issue list" where
  "issues_added before after = drop (length (issues before)) (issues after)"

text \<open>Every path that is in some file's set of the include graph.\<close>

definition resolved_targets :: "analyzer \<Rightarrow> path set" where
  "resolved_targets a = set (concat (map snd (include_graph a)))"

text \<open>The edges of the include graph: the pairs of a file and a member of its set.\<close>

definition edges :: "analyzer \<Rightarrow> (path \<times> path) set" where
  "edges a = set (concat (map (\<lambda>entry. map (Pair (fst entry)) (snd entry)) (include_graph a)))"


section \<open>A small project tree\<close>

text \<open>
  The surroundings for a project directory that holds regular, readable files only, given
  by their components below the project directory and their text. What exists is each
  file and every directory above it. \<^verbatim>\<open>glob('**/' + p)\<close> and \<^verbatim>\<open>rglob(p)\<close> yield, in the
  order of the listing, the files whose last components match the components of
  \<^verbatim>\<open>p\<close>; \<^verbatim>\<open>rglob\<close> raises on an absolute or empty pattern. The texts used below hold
  nothing that the five lexical patterns match.
\<close>

definition tail_matches :: "string list \<Rightarrow> path \<Rightarrow> bool" where
  "tail_matches pats rel =
     (length pats \<le> length rel
      \<and> list_all2 fnmatch (drop (length rel - length pats) rel) pats)"

definition tree_env :: "path \<Rightarrow> (path \<times> string) list \<Rightarrow> (path list \<Rightarrow> path list) \<Rightarrow> env" where
  "tree_env project_dir tree order =
     \<lparr>fs_exists = (\<lambda>p. list_ex (\<lambda>entry. take (length p) (project_dir @ fst entry) = p) tree),
      fs_is_file = (\<lambda>p. p \<in> set (map (\<lambda>entry. project_dir @ fst entry) tree)),
      fs_glob = (\<lambda>pat. if starts_with ''**/'' pat
                        then filter (tail_matches (parse_parts (drop 3 pat))) (map fst tree)
                        else []),
      fs_rglob = (\<lambda>pat. if starts_with ''/'' pat \<or> parse_parts pat = [] then None
                         else Some (filter (tail_matches (parse_parts pat)) (map fst tree))),
      fs_read = (\<lambda>p. map_of (map (\<lambda>entry. (project_dir @ fst entry, snd entry)) tree) p),
      fs_read_default = (\<lambda>p. map_of (map (\<lambda>entry. (project_dir @ fst entry, snd entry)) tree) p),
      re_count = (\<lambda>pat content. 0),
      set_order = order\<rparr>"

section \<open>Resolution order as the specification words it\<close>

text \<open>
  The order of candidates in the specification's words: the name beside the including
  file, then the name below the project directory with each extension in turn, then the
  regular files of a recursive search for the name's last component; the first one wins.
\<close>

definition specified_candidates :: "env \<Rightarrow> analyzer \<Rightarrow> path \<Rightarrow> string \<Rightarrow> path list" where
  "specified_candidates e a source_file include_name =
     filter (fs_exists e) [path_join (parent source_file) include_name]
     @ filter (fs_exists e)
         (map (\<lambda>ext. path_join (project_path a) (include_name @ ext)) search_extensions)
     @ (case fs_rglob e (last (parse_parts include_name)) of
          None \<Rightarrow> []
        | Some hits \<Rightarrow> filter (fs_is_file e) (map (\<lambda>rel. project_path a @ rel) hits))"

definition specified_resolution :: "env \<Rightarrow> analyzer \<Rightarrow> path \<Rightarrow> string \<Rightarrow> path option" where
  "specified_resolution e a source_file include_name =
     (case specified_candidates e a source_file include_name of
        [] \<Rightarrow> None
      | c # _ \<Rightarrow> Some c)"

text \<open>
  The order the loop of the resolver follows: for each extension, the name below the
  project directory and then the regular files of a recursive search for the same name.
\<close>

definition project_candidates :: "env \<Rightarrow> path \<Rightarrow> string \<Rightarrow> string list \<Rightarrow> path list" where
  "project_candidates e project_dir include_name exts =
     concat (map (\<lambda>ext.
         filter (fs_exists e) [path_join project_dir (include_name @ ext)]
         @ (case fs_rglob e (include_name @ ext) of
              None \<Rightarrow> []
            | Some hits \<Rightarrow> filter (fs_is_file e) (map (\<lambda>rel. project_dir @ rel) hits)))
       exts)"

section \<open>Angle-bracket includes\<close>

text \<open>
  Claim C1: an include written with angle brackets is external; it is never resolved to
  a project file and never adds an edge, whether or not a file of that name exists in
  the project.

  The resolver's first test looks for a name that starts with \<^verbatim>\<open><\<close> and holds
  \<^verbatim>\<open>>\<close>, but the recognizer has stripped the delimiters before, so the test never
  fires. In the project below, \<^verbatim>\<open>a.cpp\<close> consists of \<^verbatim>\<open>#include <config.h>\<close> and
  \<^verbatim>\<open>config.h\<close> lies beside it: the analysis resolves the include to the project file
  and adds the edge.
\<close>

theorem angle_include_resolved_to_project_file:
  "include_graph
     (sequential_analyze_files
        (tree_env [''proj''] [([''a.cpp''], ''#include <config.h>''), ([''config.h''], '''')] id)
        (discover_files
           (tree_env [''proj''] [([''a.cpp''], ''#include <config.h>''), ([''config.h''], '''')] id)
           (init [''proj''] [] default_AnalysisConfig)))
   = [([''proj'', ''a.cpp''], [[''proj'', ''config.h'']])]"
  by code_simp

section \<open>Cycle reports\<close>

text \<open>
  Claim C3: with exactly the two edges \<^verbatim>\<open>x.h -> y.h\<close> and \<^verbatim>\<open>y.h -> x.h\<close>, cycle
  detection reports exactly one issue of kind CircularDependency with severity High, and
  the reported path has length 2 and lists the stack from the re-visited file on, in
  the order of the walk.

  \<^verbatim>\<open>recursion_stack\<close> is a set, and the report is cut out of \<^verbatim>\<open>list(recursion_stack)\<close>.
  In a run where the set hands out \<^verbatim>\<open>y.h\<close> before \<^verbatim>\<open>x.h\<close>, there is still exactly one
  issue with severity High, but the reported path is \<^verbatim>\<open>x.h\<close> alone, of length 1.
\<close>

theorem cycle_report_in_set_order:
  "map_option (\<lambda>a. (include_graph a, circular_deps a, issues a))
     (detect_circular_dependencies 1000
        (tree_env [''p'']
           [([''x.h''], ''#include '' @ [CHR 0x22] @ ''y.h'' @ [CHR 0x22]),
            ([''y.h''], ''#include '' @ [CHR 0x22] @ ''x.h'' @ [CHR 0x22])] rev)
        (sequential_analyze_files
           (tree_env [''p'']
              [([''x.h''], ''#include '' @ [CHR 0x22] @ ''y.h'' @ [CHR 0x22]),
               ([''y.h''], ''#include '' @ [CHR 0x22] @ ''x.h'' @ [CHR 0x22])] rev)
           (discover_files
              (tree_env [''p'']
                 [([''x.h''], ''#include '' @ [CHR 0x22] @ ''y.h'' @ [CHR 0x22]),
                  ([''y.h''], ''#include '' @ [CHR 0x22] @ ''x.h'' @ [CHR 0x22])] rev)
              (init [''p''] [] default_AnalysisConfig))))
   = Some ([([''p'', ''x.h''], [[''p'', ''y.h'']]), ([''p'', ''y.h''], [[''p'', ''x.h'']])],
           [[[''p'', ''x.h'']]],
           [\<lparr>issue_type = CIRCULAR_DEPENDENCY, issue_file = Cycle 1, severity = HIGH,
             issue_message = CyclePath [[''p'', ''x.h'']]\<rparr>])"
  by code_simp

section \<open>Built-in ignore patterns\<close>

text \<open>
  Claim C9: file discovery returns, ordered by path, the files with a recognized source
  or header extension whose relative path matches neither a user pattern nor a built-in
  pattern; a file under \<^verbatim>\<open>build/\<close> or \<^verbatim>\<open>.git/\<close> is excluded.

  The built-in patterns hold no wildcard, and \<^verbatim>\<open>fnmatch\<close> matches the whole relative
  path, so a pattern like \<^verbatim>\<open>build/\<close> matches no file. With no user pattern, the files
  under \<^verbatim>\<open>build/\<close> and \<^verbatim>\<open>.git/\<close> are in the result.
\<close>

theorem built_in_patterns_exclude_nothing:
  "files (discover_files
        (tree_env [''proj'']
           [([''build'', ''gen.cpp''], ''''), ([''.git'', ''hook.h''], ''''),
            ([''main.cpp''], '''')] id)
        (init [''proj''] [] default_AnalysisConfig))
   = [[''proj'', ''.git'', ''hook.h''], [''proj'', ''build'', ''gen.cpp''],
      [''proj'', ''main.cpp'']]"
  by code_simp

section \<open>Delimiters of an include directive\<close>

text \<open>
  Claim C10: the recognizer accepts every pairing of an opening delimiter \<^verbatim>\<open><\<close> or
  \<^verbatim>\<open>"\<close> with a closing delimiter \<^verbatim>\<open>>\<close> or \<^verbatim>\<open>"\<close>. A line such as
  \<^verbatim>\<open>#include <b.h"\<close> is read as an include of \<^verbatim>\<open>b.h\<close>, without the delimiters, is
  counted in the header-frequency counter and goes to project-file resolution as a
  well-formed quoted include does.

  This is what happens to such a line when it opens the text: in the second project
  below, the name \<^verbatim>\<open>b.h\<close> is found, counted once and resolved to the project file, and
  the edge is added. The pattern of \<^verbatim>\<open>_analyze_file_includes\<close> is compiled without
  \<^verbatim>\<open>re.MULTILINE\<close>, though, unlike the pattern that counts the directives of a file. In
  the first project the same line is the second line of \<^verbatim>\<open>a.cpp\<close>: the count of
  directives is 1, but no name is found, nothing is counted in the header-frequency
  counter, nothing is resolved and the graph stays empty.
\<close>

theorem include_on_a_later_line_not_recognized:
  "findall_includes (''int x;'' @ [CHR 0x0A] @ ''#include <b.h'' @ [CHR 0x22]) = []
   \<and> count_include_directives (''int x;'' @ [CHR 0x0A] @ ''#include <b.h'' @ [CHR 0x22]) = 1
   \<and> header_frequency
       (sequential_analyze_files
          (tree_env [''proj'']
             [([''a.cpp''], ''int x;'' @ [CHR 0x0A] @ ''#include <b.h'' @ [CHR 0x22]),
              ([''b.h''], [])] id)
          (discover_files
             (tree_env [''proj'']
                [([''a.cpp''], ''int x;'' @ [CHR 0x0A] @ ''#include <b.h'' @ [CHR 0x22]),
                 ([''b.h''], [])] id)
             (init [''proj''] [] default_AnalysisConfig))) ''b.h'' = 0
   \<and> include_graph
       (sequential_analyze_files
          (tree_env [''proj'']
             [([''a.cpp''], ''int x;'' @ [CHR 0x0A] @ ''#include <b.h'' @ [CHR 0x22]),
              ([''b.h''], [])] id)
          (discover_files
             (tree_env [''proj'']
                [([''a.cpp''], ''int x;'' @ [CHR 0x0A] @ ''#include <b.h'' @ [CHR 0x22]),
                 ([''b.h''], [])] id)
             (init [''proj''] [] default_AnalysisConfig))) = []
   \<and> findall_includes (''#include <b.h'' @ [CHR 0x22]) = [''b.h'']
   \<and> header_frequency
       (sequential_analyze_files
          (tree_env [''proj'']
             [([''a.cpp''], ''#include <b.h'' @ [CHR 0x22]), ([''b.h''], [])] id)
          (discover_files
             (tree_env [''proj'']
                [([''a.cpp''], ''#include <b.h'' @ [CHR 0x22]), ([''b.h''], [])] id)
             (init [''proj''] [] default_AnalysisConfig))) ''b.h'' = 1
   \<and> include_graph
       (sequential_analyze_files
          (tree_env [''proj'']
             [([''a.cpp''], ''#include <b.h'' @ [CHR 0x22]), ([''b.h''], [])] id)
          (discover_files
             (tree_env [''proj'']
                [([''a.cpp''], ''#include <b.h'' @ [CHR 0x22]), ([''b.h''], [])] id)
             (init [''proj''] [] default_AnalysisConfig)))
     = [([''proj'', ''a.cpp''], [[''proj'', ''b.h'']])]"
  by code_simp

section \<open>Too many includes\<close>

lemma process_include_keeps:
  "issues (snd (process_include e f n a)) = issues a"
  "analysis_config (snd (process_include e f n a)) = analysis_config a"
  "files (snd (process_include e f n a)) = files a"
  "project_path (snd (process_include e f n a)) = project_path a"
  by (simp_all add: process_include_def add_edge_def Let_def split: sum.splits option.splits)

lemma include_loop_keeps:
  "issues (snd (include_loop e f ns a)) = issues a
   \<and> analysis_config (snd (include_loop e f ns a)) = analysis_config a
   \<and> files (snd (include_loop e f ns a)) = files a
   \<and> project_path (snd (include_loop e f ns a)) = project_path a"
proof (induction ns arbitrary: a)
  case Nil
  show ?case by simp
next
  case (Cons n ns)
  obtain r a' where p: "process_include e f n a = (r, a')"
    by (cases "process_include e f n a")
  have k: "issues a' = issues a" "analysis_config a' = analysis_config a"
    "files a' = files a" "project_path a' = project_path a"
    using process_include_keeps [of e f n a] p by simp_all
  show ?case
  proof (cases r)
    case None
    then show ?thesis using p k Cons.IH [of a'] by simp
  next
    case (Some err)
    then show ?thesis using p k by simp
  qed
qed

text \<open>
  Claim C4: for an analyzed file and the configured threshold (20 by default), an issue
  of kind ExcessiveIncludes with severity Medium is emitted for the file if and only if
  the number of its include directives is strictly greater than the threshold; a file
  with exactly as many directives as the threshold gets no such issue.

  The file is analyzed when it can be read and the loop over its includes ends without
  an exception. The number of directives is what the source counts them by, the matches
  of \<^verbatim>\<open>^\s*#\s*include\<close> over all lines.
\<close>

theorem excessive_includes_iff_over_threshold:
  assumes "fs_read e f = Some content"
    and "fst (include_loop e f (findall_includes content)
                (a\<lparr>file_sizes := (file_sizes a)(f \<mapsto> length content)\<rparr>)) = None"
  shows "((\<exists>i\<in>set (issues_added a (analyze_file_includes e f a)).
             issue_type i = EXCESSIVE_INCLUDES \<and> issue_file i = File f \<and> severity i = MEDIUM)
          \<longleftrightarrow> max_header_includes (analysis_config a) < int (count_include_directives content))
       \<and> (\<forall>i\<in>set (issues_added a (analyze_file_includes e f a)).
             issue_type i = EXCESSIVE_INCLUDES \<longrightarrow> issue_file i = File f \<and> severity i = MEDIUM)
       \<and> length (filter (\<lambda>i. issue_type i = EXCESSIVE_INCLUDES)
                   (issues_added a (analyze_file_includes e f a))) \<le> 1
       \<and> max_header_includes default_AnalysisConfig = 20"
proof -
  define a1 where "a1 = a\<lparr>file_sizes := (file_sizes a)(f \<mapsto> length content)\<rparr>"
  define a2 where "a2 = snd (include_loop e f (findall_includes content) a1)"
  have loop: "include_loop e f (findall_includes content) a1 = (None, a2)"
    using assms(2) by (simp add: a1_def a2_def prod_eq_iff)
  have res: "analyze_file_includes e f a = detect_file_issues e f content a2"
    using assms(1) loop by (simp add: analyze_file_includes_def a1_def Let_def)
  have k: "issues a2 = issues a" "analysis_config a2 = analysis_config a"
    using include_loop_keeps [of e f "findall_includes content" a1]
    by (simp_all add: a2_def a1_def)
  have added: "issues_added a (analyze_file_includes e f a)
                 = issues_added a2 (detect_file_issues e f content a2)"
    by (simp add: res issues_added_def k)
  show ?thesis
    unfolding added
    by (auto simp: issues_added_def detect_file_issues_def Let_def k default_AnalysisConfig_def)
qed

theorem excessive_includes_iff_over_threshold_witness:
  "(\<exists>i\<in>set (issues_added
               ((init [''proj''] [] default_AnalysisConfig)\<lparr>files := [[''proj'', ''big.h'']]\<rparr>)
               (analyze_file_includes
                  (tree_env [''proj'']
                     [([''big.h''], concat (replicate 21 (''#include <a>'' @ [CHR 0x0A])))] id)
                  [''proj'', ''big.h'']
                  ((init [''proj''] [] default_AnalysisConfig)\<lparr>files := [[''proj'', ''big.h'']]\<rparr>))).
       issue_type i = EXCESSIVE_INCLUDES \<and> issue_file i = File [''proj'', ''big.h'']
       \<and> severity i = MEDIUM)
   \<and> \<not> (\<exists>i\<in>set (issues_added
               ((init [''proj''] [] default_AnalysisConfig)\<lparr>files := [[''proj'', ''edge.h'']]\<rparr>)
               (analyze_file_includes
                  (tree_env [''proj'']
                     [([''edge.h''], concat (replicate 20 (''#include <a>'' @ [CHR 0x0A])))] id)
                  [''proj'', ''edge.h'']
                  ((init [''proj''] [] default_AnalysisConfig)\<lparr>files := [[''proj'', ''edge.h'']]\<rparr>))).
       issue_type i = EXCESSIVE_INCLUDES \<and> issue_file i = File [''proj'', ''edge.h'']
       \<and> severity i = MEDIUM)"
proof -
  let ?c21 = "concat (replicate 21 (''#include <a>'' @ [CHR 0x0A]))"
  let ?c20 = "concat (replicate 20 (''#include <a>'' @ [CHR 0x0A]))"
  let ?e21 = "tree_env [''proj''] [([''big.h''], ?c21)] id"
  let ?e20 = "tree_env [''proj''] [([''edge.h''], ?c20)] id"
  let ?a21 = "(init [''proj''] [] default_AnalysisConfig)\<lparr>files := [[''proj'', ''big.h'']]\<rparr>"
  let ?a20 = "(init [''proj''] [] default_AnalysisConfig)\<lparr>files := [[''proj'', ''edge.h'']]\<rparr>"
  have r21: "fs_read ?e21 [''proj'', ''big.h''] = Some ?c21" by code_simp
  have r20: "fs_read ?e20 [''proj'', ''edge.h''] = Some ?c20" by code_simp
  have l21: "fst (include_loop ?e21 [''proj'', ''big.h''] (findall_includes ?c21)
                (?a21\<lparr>file_sizes := (file_sizes ?a21)([''proj'', ''big.h''] \<mapsto> length ?c21)\<rparr>)) = None"
    by code_simp
  have l20: "fst (include_loop ?e20 [''proj'', ''edge.h''] (findall_includes ?c20)
                (?a20\<lparr>file_sizes := (file_sizes ?a20)([''proj'', ''edge.h''] \<mapsto> length ?c20)\<rparr>)) = None"
    by code_simp
  have t21: "max_header_includes (analysis_config ?a21) < int (count_include_directives ?c21)"
    by code_simp
  have t20: "\<not> max_header_includes (analysis_config ?a20) < int (count_include_directives ?c20)"
    by code_simp
  show ?thesis
    using excessive_includes_iff_over_threshold [OF r21 l21]
      excessive_includes_iff_over_threshold [OF r20 l20] t21 t20
    by blast
qed

section \<open>Estimated build times\<close>









section \<open>Unused headers\<close>

text \<open>
  Claim C7: for every recognized header file in the catalog, a single issue of kind
  UnusedHeader with severity Low is emitted if and only if the header is the target of
  no include edge; so the unused headers and the resolved targets are disjoint.

  The catalog recognizes six header extensions. \<^verbatim>\<open>_detect_unused_headers\<close> collects,
  in its own words, all header files of the project, but keeps only the catalog files
  with suffix \<^verbatim>\<open>.h\<close>, \<^verbatim>\<open>.hpp\<close> or \<^verbatim>\<open>.hh\<close>. In the project below nothing is
  included, so no header is the target of an edge: \<^verbatim>\<open>other.h\<close> gets its one issue with
  severity Low, and \<^verbatim>\<open>util.hxx\<close>, a header of the catalog as well, gets none.
\<close>

theorem hxx_header_never_reported_unused:
  "files (discover_files
            (tree_env [''proj'']
               [([''main.cpp''], ''int x;''), ([''other.h''], []), ([''util.hxx''], [])] id)
            (init [''proj''] [] default_AnalysisConfig))
   = [[''proj'', ''main.cpp''], [''proj'', ''other.h''], [''proj'', ''util.hxx'']]
   \<and> suffix [''proj'', ''util.hxx''] \<in> set header_extensions
   \<and> resolved_targets
        (sequential_analyze_files
           (tree_env [''proj'']
              [([''main.cpp''], ''int x;''), ([''other.h''], []), ([''util.hxx''], [])] id)
           (discover_files
              (tree_env [''proj'']
                 [([''main.cpp''], ''int x;''), ([''other.h''], []), ([''util.hxx''], [])] id)
              (init [''proj''] [] default_AnalysisConfig))) = {}
   \<and> issues
        (detect_unused_headers
           (tree_env [''proj'']
              [([''main.cpp''], ''int x;''), ([''other.h''], []), ([''util.hxx''], [])] id)
           (sequential_analyze_files
              (tree_env [''proj'']
                 [([''main.cpp''], ''int x;''), ([''other.h''], []), ([''util.hxx''], [])] id)
              (discover_files
                 (tree_env [''proj'']
                    [([''main.cpp''], ''int x;''), ([''other.h''], []), ([''util.hxx''], [])] id)
                 (init [''proj''] [] default_AnalysisConfig))))
     = [\<lparr>issue_type = UNUSED_HEADER, issue_file = File [''proj'', ''other.h''],
         severity = LOW, issue_message = NotIncluded\<rparr>]"
  by code_simp

section \<open>Order of resolution\<close>

text \<open>
  Claim C2: a quoted include is resolved by trying, in this order, the name relative to
  the including file's directory, the name relative to the project directory with each
  of the suffixes \<^verbatim>\<open>""\<close>, \<^verbatim>\<open>.h\<close>, \<^verbatim>\<open>.hpp\<close>, \<^verbatim>\<open>.hh\<close>, \<^verbatim>\<open>.hxx\<close>, and a recursive
  search by basename under the project directory; the first candidate that exists is
  returned. If none exists, the include is counted in the header-frequency counter only
  and no edge is added.

  The resolver does not go through all suffixes before it searches: it searches after
  each suffix. With \<^verbatim>\<open>deep/types\<close> and \<^verbatim>\<open>types.h\<close> in the project, the include of
  \<^verbatim>\<open>types\<close> from \<^verbatim>\<open>a.cpp\<close> is resolved to \<^verbatim>\<open>deep/types\<close>, found by the search for the
  bare name, where the stated order gives \<^verbatim>\<open>types.h\<close>.
\<close>

theorem search_interleaved_with_extensions:
  "resolve_include_path
     (tree_env [''proj'']
        [([''a.cpp''], ''#include '' @ [CHR 0x22] @ ''types'' @ [CHR 0x22]),
         ([''deep'', ''types''], []), ([''types.h''], [])] id)
     (init [''proj''] [] default_AnalysisConfig) [''proj'', ''a.cpp''] ''types''
   = Inr (Some [''proj'', ''deep'', ''types''])
   \<and> specified_resolution
     (tree_env [''proj'']
        [([''a.cpp''], ''#include '' @ [CHR 0x22] @ ''types'' @ [CHR 0x22]),
         ([''deep'', ''types''], []), ([''types.h''], [])] id)
     (init [''proj''] [] default_AnalysisConfig) [''proj'', ''a.cpp''] ''types''
   = Some [''proj'', ''types.h'']
   \<and> include_graph
     (sequential_analyze_files
        (tree_env [''proj'']
           [([''a.cpp''], ''#include '' @ [CHR 0x22] @ ''types'' @ [CHR 0x22]),
            ([''deep'', ''types''], []), ([''types.h''], [])] id)
        (discover_files
           (tree_env [''proj'']
              [([''a.cpp''], ''#include '' @ [CHR 0x22] @ ''types'' @ [CHR 0x22]),
               ([''deep'', ''types''], []), ([''types.h''], [])] id)
           (init [''proj''] [] default_AnalysisConfig)))
   = [([''proj'', ''a.cpp''], [[''proj'', ''deep'', ''types'']])]"
  by code_simp

lemma find_first_of_filter:
  "find P xs = (case filter P xs of [] \<Rightarrow> None | x # _ \<Rightarrow> Some x)"
  by (induction xs) auto

lemma resolve_in_project_first:
  assumes "\<forall>ext\<in>set exts. fs_rglob e (name @ ext) \<noteq> None"
  shows "resolve_in_project e d name exts
         = Inr (case project_candidates e d name exts of [] \<Rightarrow> None | c # _ \<Rightarrow> Some c)"
  using assms
proof (induction exts)
  case Nil
  show ?case by (simp add: project_candidates_def)
next
  case (Cons ext exts)
  from Cons.prems obtain hits where hits: "fs_rglob e (name @ ext) = Some hits"
    by auto
  have rest: "resolve_in_project e d name exts
         = Inr (case project_candidates e d name exts of [] \<Rightarrow> None | c # _ \<Rightarrow> Some c)"
    using Cons by simp
  have unfold: "project_candidates e d name (ext # exts)
        = filter (fs_exists e) [path_join d (name @ ext)]
          @ filter (fs_is_file e) (map (\<lambda>rel. d @ rel) hits)
          @ project_candidates e d name exts"
    by (simp add: project_candidates_def hits)
  show ?case
  proof (cases "fs_exists e (path_join d (name @ ext))")
    case True
    then show ?thesis by (simp add: unfold Let_def)
  next
    case False
    show ?thesis
    proof (cases "filter (fs_is_file e) (map (\<lambda>rel. d @ rel) hits)")
      case Nil
      then show ?thesis
        using False hits rest by (simp add: unfold Let_def find_first_of_filter)
    next
      case (Cons h hs)
      then show ?thesis
        using False hits by (simp add: unfold Let_def find_first_of_filter)
    qed
  qed
qed

lemma recognized_name_guards:
  assumes "\<forall>c\<in>set name. name_char c"
  shows "CHR ''>'' \<notin> set name"
    and "\<not> starts_with [CHR 0x22] name"
proof -
  show "CHR ''>'' \<notin> set name"
    using assms by (auto simp: name_char_def)
  show "\<not> starts_with [CHR 0x22] name"
    using assms by (cases name) (auto simp: name_char_def)
qed

lemma resolve_ignores_counters:
  "resolve_include_path e (a\<lparr>header_frequency := h\<rparr>) f n = resolve_include_path e a f n"
  by (simp add: resolve_include_path_def Let_def)

text \<open>
  Claim C2 as amended: for an include name as the recognizer delivers it (free of
  closing delimiters) that does not exist relative to the including file's directory,
  the resolver goes through the suffixes \<^verbatim>\<open>""\<close>, \<^verbatim>\<open>.h\<close>, \<^verbatim>\<open>.hpp\<close>, \<^verbatim>\<open>.hh\<close>,
  \<^verbatim>\<open>.hxx\<close> and tries, for each, the name with the suffix relative to the project
  directory and then the regular files of a recursive search for the name with the
  suffix; it returns the first candidate that exists. If none exists, the include is
  counted in the header-frequency counter and nothing else changes. The recursive
  searches are assumed not to raise.
\<close>

theorem resolution_order:
  assumes "\<forall>c\<in>set name. name_char c"
    and "\<not> fs_exists e (path_join (parent source_file) name)"
    and "\<forall>ext\<in>set search_extensions. fs_rglob e (name @ ext) \<noteq> None"
  shows "resolve_include_path e a source_file name
         = Inr (case project_candidates e (project_path a) name search_extensions of
                  [] \<Rightarrow> None
                | c # _ \<Rightarrow> Some c)
       \<and> (project_candidates e (project_path a) name search_extensions = [] \<longrightarrow>
            process_include e source_file name a
            = (None, a\<lparr>header_frequency :=
                         (header_frequency a)(name := header_frequency a name + 1)\<rparr>))"
proof -
  have r: "resolve_include_path e a source_file name
         = Inr (case project_candidates e (project_path a) name search_extensions of
                  [] \<Rightarrow> None
                | c # _ \<Rightarrow> Some c)"
    using recognized_name_guards [OF assms(1)] resolve_in_project_first [OF assms(3)]
    by (simp add: resolve_include_path_def)
  have "project_candidates e (project_path a) name search_extensions = [] \<Longrightarrow>
            process_include e source_file name a
            = (None, a\<lparr>header_frequency :=
                         (header_frequency a)(name := header_frequency a name + 1)\<rparr>)"
    using r by (simp add: process_include_def Let_def resolve_ignores_counters)
  then show ?thesis using r by blast
qed

theorem resolution_order_witness:
  "resolve_include_path
     (tree_env [''proj'']
        [([''src'', ''a.cpp''], ''#include '' @ [CHR 0x22] @ ''b'' @ [CHR 0x22]),
         ([''inc'', ''b''], []), ([''b.h''], [])] id)
     (init [''proj''] [] default_AnalysisConfig) [''proj'', ''src'', ''a.cpp''] ''b''
   = Inr (Some [''proj'', ''inc'', ''b''])
   \<and> process_include
     (tree_env [''proj'']
        [([''src'', ''a.cpp''], ''#include '' @ [CHR 0x22] @ ''b'' @ [CHR 0x22]),
         ([''inc'', ''b''], []), ([''b.h''], [])] id)
     [''proj'', ''src'', ''a.cpp''] ''gone.h'' (init [''proj''] [] default_AnalysisConfig)
   = (None, (init [''proj''] [] default_AnalysisConfig)
              \<lparr>header_frequency := (\<lambda>_. 0)(''gone.h'' := 1)\<rparr>)"
proof -
  let ?e = "tree_env [''proj'']
        [([''src'', ''a.cpp''], ''#include '' @ [CHR 0x22] @ ''b'' @ [CHR 0x22]),
         ([''inc'', ''b''], []), ([''b.h''], [])] id"
  let ?a = "init [''proj''] [] default_AnalysisConfig"
  have n1: "\<forall>c\<in>set ''b''. name_char c" by code_simp
  have n2: "\<forall>c\<in>set ''gone.h''. name_char c" by code_simp
  have x1: "\<not> fs_exists ?e (path_join (parent [''proj'', ''src'', ''a.cpp'']) ''b'')" by code_simp
  have x2: "\<not> fs_exists ?e (path_join (parent [''proj'', ''src'', ''a.cpp'']) ''gone.h'')" by code_simp
  have g1: "\<forall>ext\<in>set search_extensions. fs_rglob ?e (''b'' @ ext) \<noteq> None" by code_simp
  have g2: "\<forall>ext\<in>set search_extensions. fs_rglob ?e (''gone.h'' @ ext) \<noteq> None" by code_simp
  have c1: "project_candidates ?e (project_path ?a) ''b'' search_extensions
              = [[''proj'', ''inc'', ''b''], [''proj'', ''b.h''], [''proj'', ''b.h'']]" by code_simp
  have c2: "project_candidates ?e (project_path ?a) ''gone.h'' search_extensions = []" by code_simp
  have h0: "header_frequency ?a = (\<lambda>_. 0)" by (simp add: init_def)
  show ?thesis
    using resolution_order [OF n1 x1 g1, of ?a] resolution_order [OF n2 x2 g2, of ?a] c1 c2 h0
    by simp
qed

section \<open>The graph while files are analyzed\<close>

lemma resolve_in_project_found:
  "resolve_in_project e d n exts = Inr (Some r) \<Longrightarrow> fs_exists e r \<or> fs_is_file e r"
proof (induction exts)
  case Nil
  then show ?case by simp
next
  case (Cons ext exts)
  then show ?case
    by (auto simp: Let_def find_Some_iff split: if_splits option.splits)
qed

lemma resolve_include_path_found:
  "resolve_include_path e a f n = Inr (Some r) \<Longrightarrow> fs_exists e r \<or> fs_is_file e r"
  by (auto simp: resolve_include_path_def Let_def split: if_splits
           dest: resolve_in_project_found)

lemma resolve_same_project:
  "project_path a' = project_path a \<Longrightarrow>
   resolve_include_path e a' f n = resolve_include_path e a f n"
  by (simp add: resolve_include_path_def Let_def)

lemma process_include_cases:
  "(\<exists>err. resolve_include_path e a f n = Inl err
      \<and> process_include e f n a
          = (Some err, a\<lparr>header_frequency :=
                            (header_frequency a)(n := header_frequency a n + 1)\<rparr>))
   \<or> (resolve_include_path e a f n = Inr None
      \<and> process_include e f n a
          = (None, a\<lparr>header_frequency :=
                        (header_frequency a)(n := header_frequency a n + 1)\<rparr>))
   \<or> (\<exists>r. resolve_include_path e a f n = Inr (Some r)
      \<and> process_include e f n a
          = (None, add_edge (a\<lparr>header_frequency :=
                                  (header_frequency a)(n := header_frequency a n + 1)\<rparr>) f r))"
proof -
  let ?a1 = "a\<lparr>header_frequency := (header_frequency a)(n := header_frequency a n + 1)\<rparr>"
  have same: "resolve_include_path e ?a1 f n = resolve_include_path e a f n"
    by (rule resolve_same_project) simp
  show ?thesis
  proof (cases "resolve_include_path e a f n")
    case (Inl err)
    then show ?thesis using same by (simp add: process_include_def Let_def)
  next
    case (Inr res)
    then show ?thesis using same by (cases res) (simp_all add: process_include_def Let_def)
  qed
qed

lemma edges_graph_add:
  "set (concat (map (\<lambda>entry. map (Pair (fst entry)) (snd entry)) (graph_add g f r)))
   = insert (f, r) (set (concat (map (\<lambda>entry. map (Pair (fst entry)) (snd entry)) g)))"
  by (induction g f r rule: graph_add.induct) (auto simp: pyset_add_def)

lemma edges_add_edge: "edges (add_edge a f r) = insert (f, r) (edges a)"
  using edges_graph_add [of "include_graph a" f r] by (simp add: edges_def add_edge_def)

lemma edges_header_frequency: "edges (a\<lparr>header_frequency := h\<rparr>) = edges a"
  by (simp add: edges_def)

lemma process_include_edges:
  assumes "(A, B) \<in> edges (snd (process_include e f n a))"
  shows "(A, B) \<in> edges a \<or> (A = f \<and> (fs_exists e B \<or> fs_is_file e B))"
  using process_include_cases [of e a f n] assms
  by (auto simp: edges_add_edge edges_header_frequency dest: resolve_include_path_found)

lemma include_loop_edges:
  assumes "(A, B) \<in> edges (snd (include_loop e f ns a))"
  shows "(A, B) \<in> edges a \<or> (A = f \<and> (fs_exists e B \<or> fs_is_file e B))"
  using assms
proof (induction ns arbitrary: a)
  case Nil
  then show ?case by simp
next
  case (Cons n ns)
  obtain res a' where p: "process_include e f n a = (res, a')"
    by (cases "process_include e f n a")
  have step: "\<And>X Y. (X, Y) \<in> edges a' \<Longrightarrow>
                (X, Y) \<in> edges a \<or> (X = f \<and> (fs_exists e Y \<or> fs_is_file e Y))"
    using process_include_edges [of _ _ e f n a] p by simp
  show ?case
  proof (cases res)
    case None
    then have "(A, B) \<in> edges (snd (include_loop e f ns a'))"
      using Cons.prems p by simp
    then have "(A, B) \<in> edges a' \<or> (A = f \<and> (fs_exists e B \<or> fs_is_file e B))"
      by (rule Cons.IH)
    then show ?thesis using step by blast
  next
    case (Some err)
    then have "(A, B) \<in> edges a'" using Cons.prems p by simp
    then show ?thesis using step by blast
  qed
qed

lemma detect_file_issues_graph:
  "include_graph (detect_file_issues e f content a) = include_graph a"
  "dependency_count (detect_file_issues e f content a) = dependency_count a"
  by (simp_all add: detect_file_issues_def Let_def)

lemma analyze_file_includes_graph:
  "\<exists>ns a1. include_graph a1 = include_graph a \<and> dependency_count a1 = dependency_count a
     \<and> include_graph (analyze_file_includes e f a) = include_graph (snd (include_loop e f ns a1))
     \<and> dependency_count (analyze_file_includes e f a)
         = dependency_count (snd (include_loop e f ns a1))"
proof (cases "fs_read e f")
  case None
  have "include_graph (analyze_file_includes e f a) = include_graph (snd (include_loop e f [] a))"
    "dependency_count (analyze_file_includes e f a)
       = dependency_count (snd (include_loop e f [] a))"
    using None by (simp_all add: analyze_file_includes_def)
  then show ?thesis by blast
next
  case (Some content)
  let ?a1 = "a\<lparr>file_sizes := (file_sizes a)(f \<mapsto> length content)\<rparr>"
  obtain res a2 where l: "include_loop e f (findall_includes content) ?a1 = (res, a2)"
    by (cases "include_loop e f (findall_includes content) ?a1")
  have "include_graph (analyze_file_includes e f a) = include_graph a2
        \<and> dependency_count (analyze_file_includes e f a) = dependency_count a2"
    using Some l
    by (cases res) (simp_all add: analyze_file_includes_def Let_def detect_file_issues_graph)
  moreover have "include_graph ?a1 = include_graph a" "dependency_count ?a1 = dependency_count a"
    by simp_all
  ultimately show ?thesis using l
    by (metis snd_conv)
qed

lemma analyze_file_includes_edges:
  assumes "(A, B) \<in> edges (analyze_file_includes e f a)"
  shows "(A, B) \<in> edges a \<or> (A = f \<and> (fs_exists e B \<or> fs_is_file e B))"
proof -
  obtain ns a1 where a1: "include_graph a1 = include_graph a"
    and g: "include_graph (analyze_file_includes e f a)
              = include_graph (snd (include_loop e f ns a1))"
    using analyze_file_includes_graph [of a e f] by blast
  have "(A, B) \<in> edges (snd (include_loop e f ns a1))"
    using assms g by (simp add: edges_def)
  then have "(A, B) \<in> edges a1 \<or> (A = f \<and> (fs_exists e B \<or> fs_is_file e B))"
    by (rule include_loop_edges)
  then show ?thesis using a1 by (simp add: edges_def)
qed

lemma analyze_all_edges:
  assumes "(A, B) \<in> edges (foldl (\<lambda>s file_path. analyze_file_includes e file_path s) a fs)"
  shows "(A, B) \<in> edges a \<or> (A \<in> set fs \<and> (fs_exists e B \<or> fs_is_file e B))"
  using assms
proof (induction fs arbitrary: a)
  case Nil
  then show ?case by simp
next
  case (Cons f fs)
  from Cons.prems have "(A, B) \<in> edges (analyze_file_includes e f a)
      \<or> (A \<in> set fs \<and> (fs_exists e B \<or> fs_is_file e B))"
    using Cons.IH [of "analyze_file_includes e f a"] by simp
  then show ?case using analyze_file_includes_edges [of A B e f a] by auto
qed

text \<open>
  Claim C5: for every edge of the dependency graph both end points are paths of the
  catalog; an include that resolves to anything outside the catalog is treated as
  external and yields a frequency-counter increment only, no edge.

  The resolver returns whatever exists on disk, and the edge is added without a look at
  the catalog. In the project below \<^verbatim>\<open>a.cpp\<close> includes \<^verbatim>\<open>data.inc\<close>, which is not a
  file of the catalog: the graph gets the edge from \<^verbatim>\<open>a.cpp\<close> to \<^verbatim>\<open>data.inc\<close>.
\<close>

theorem edges_lead_outside_the_catalog:
  "edges (sequential_analyze_files
            (tree_env [''proj'']
               [([''a.cpp''], ''#include '' @ [CHR 0x22] @ ''data.inc'' @ [CHR 0x22]),
                ([''data.inc''], ''1, 2, 3'')] id)
            (discover_files
               (tree_env [''proj'']
                  [([''a.cpp''], ''#include '' @ [CHR 0x22] @ ''data.inc'' @ [CHR 0x22]),
                   ([''data.inc''], ''1, 2, 3'')] id)
               (init [''proj''] [] default_AnalysisConfig)))
   = {([''proj'', ''a.cpp''], [''proj'', ''data.inc''])}
   \<and> files (sequential_analyze_files
            (tree_env [''proj'']
               [([''a.cpp''], ''#include '' @ [CHR 0x22] @ ''data.inc'' @ [CHR 0x22]),
                ([''data.inc''], ''1, 2, 3'')] id)
            (discover_files
               (tree_env [''proj'']
                  [([''a.cpp''], ''#include '' @ [CHR 0x22] @ ''data.inc'' @ [CHR 0x22]),
                   ([''data.inc''], ''1, 2, 3'')] id)
               (init [''proj''] [] default_AnalysisConfig)))
   = [[''proj'', ''a.cpp'']]"
  by code_simp

lemma include_loop_single:
  "include_loop e f [n] a = process_include e f n a"
  by (cases "process_include e f n a") (auto split: option.splits)

lemma edges_same_graph: "include_graph a' = include_graph a \<Longrightarrow> edges a' = edges a"
  by (simp add: edges_def)

lemma process_include_resolved:
  assumes "resolve_include_path e a f n = Inr (Some r)"
  shows "process_include e f n a
         = (None, add_edge (a\<lparr>header_frequency :=
                               (header_frequency a)(n := header_frequency a n + 1)\<rparr>) f r)"
  using process_include_cases [of e a f n] assms by (elim disjE exE conjE) simp_all

lemma process_include_missed:
  assumes "resolve_include_path e a f n = Inr None"
  shows "process_include e f n a
         = (None, a\<lparr>header_frequency := (header_frequency a)(n := header_frequency a n + 1)\<rparr>)"
  using process_include_cases [of e a f n] assms by (elim disjE exE conjE) simp_all

lemma process_include_grows: "edges a \<subseteq> edges (snd (process_include e f n a))"
  using process_include_cases [of e a f n]
proof (elim disjE exE conjE)
  fix err
  assume "process_include e f n a
          = (Some err, a\<lparr>header_frequency :=
                            (header_frequency a)(n := header_frequency a n + 1)\<rparr>)"
  then show ?thesis by (simp add: edges_header_frequency)
next
  assume "process_include e f n a
          = (None, a\<lparr>header_frequency :=
                        (header_frequency a)(n := header_frequency a n + 1)\<rparr>)"
  then show ?thesis by (simp add: edges_header_frequency)
next
  fix r
  assume "process_include e f n a
          = (None, add_edge (a\<lparr>header_frequency :=
                                (header_frequency a)(n := header_frequency a n + 1)\<rparr>) f r)"
  then show ?thesis by (auto simp: edges_add_edge edges_header_frequency)
qed

lemma include_loop_grows: "edges a \<subseteq> edges (snd (include_loop e f ns a))"
proof (induction ns arbitrary: a)
  case Nil
  show ?case by simp
next
  case (Cons n ns)
  obtain res a' where p: "process_include e f n a = (res, a')"
    by (cases "process_include e f n a")
  have g: "edges a \<subseteq> edges a'"
    using process_include_grows [of a e f n] p by simp
  show ?case
  proof (cases res)
    case None
    then show ?thesis using p g Cons.IH [of a'] by auto
  next
    case (Some err)
    then show ?thesis using p g by simp
  qed
qed

lemma analyze_file_includes_grows: "edges a \<subseteq> edges (analyze_file_includes e f a)"
proof -
  obtain ns a1 where a1: "include_graph a1 = include_graph a"
    and g: "include_graph (analyze_file_includes e f a)
              = include_graph (snd (include_loop e f ns a1))"
    using analyze_file_includes_graph [of a e f] by blast
  have "edges a1 \<subseteq> edges (snd (include_loop e f ns a1))"
    by (rule include_loop_grows)
  then show ?thesis
    using edges_same_graph [OF a1] edges_same_graph [OF g] by simp
qed

lemma analyze_all_grows:
  "edges a \<subseteq> edges (foldl (\<lambda>s file_path. analyze_file_includes e file_path s) a fs)"
proof (induction fs arbitrary: a)
  case Nil
  show ?case by simp
next
  case (Cons f fs)
  have "edges a \<subseteq> edges (analyze_file_includes e f a)"
    by (rule analyze_file_includes_grows)
  then show ?case using Cons.IH [of "analyze_file_includes e f a"] by auto
qed

lemma detect_file_issues_project:
  "project_path (detect_file_issues e f content a) = project_path a"
  by (simp add: detect_file_issues_def Let_def)

lemma analyze_file_includes_project:
  "project_path (analyze_file_includes e f a) = project_path a"
proof (cases "fs_read e f")
  case None
  then show ?thesis by (simp add: analyze_file_includes_def)
next
  case (Some content)
  let ?a1 = "a\<lparr>file_sizes := (file_sizes a)(f \<mapsto> length content)\<rparr>"
  obtain res a2 where l: "include_loop e f (findall_includes content) ?a1 = (res, a2)"
    by (cases "include_loop e f (findall_includes content) ?a1")
  have "project_path a2 = project_path ?a1"
    using include_loop_keeps [of e f "findall_includes content" ?a1] l by simp
  then show ?thesis
    using Some l
    by (cases res) (simp_all add: analyze_file_includes_def Let_def detect_file_issues_project)
qed

lemma analyze_file_includes_adds:
  assumes "fs_read e f = Some content" and "findall_includes content = [n]"
    and "resolve_include_path e s f n = Inr (Some r)"
  shows "(f, r) \<in> edges (analyze_file_includes e f s)"
proof -
  let ?a1 = "s\<lparr>file_sizes := (file_sizes s)(f \<mapsto> length content)\<rparr>"
  let ?a2 = "add_edge (?a1\<lparr>header_frequency :=
                          (header_frequency ?a1)(n := header_frequency ?a1 n + 1)\<rparr>) f r"
  have "resolve_include_path e ?a1 f n = resolve_include_path e s f n"
    by (rule resolve_same_project) simp
  then have "resolve_include_path e ?a1 f n = Inr (Some r)"
    using assms(3) by simp
  then have p: "process_include e f n ?a1 = (None, ?a2)"
    by (rule process_include_resolved)
  have l: "include_loop e f (findall_includes content) ?a1 = (None, ?a2)"
    unfolding assms(2) include_loop_single by (rule p)
  have "analyze_file_includes e f s = detect_file_issues e f content ?a2"
    using assms(1) l by (simp add: analyze_file_includes_def Let_def)
  then have "edges (analyze_file_includes e f s) = edges ?a2"
    using edges_same_graph [OF detect_file_issues_graph(1), of e f content ?a2] by simp
  then show ?thesis by (simp add: edges_add_edge)
qed

lemma analyze_all_adds:
  assumes "f \<in> set fs" and "fs_read e f = Some content" and "findall_includes content = [n]"
    and "resolve_include_path e a f n = Inr (Some r)" and "project_path s = project_path a"
  shows "(f, r) \<in> edges (foldl (\<lambda>s file_path. analyze_file_includes e file_path s) s fs)"
  using assms(1) assms(5)
proof (induction fs arbitrary: s)
  case Nil
  then show ?case by simp
next
  case (Cons f' fs)
  show ?case
  proof (cases "f' = f")
    case True
    have "resolve_include_path e s f n = resolve_include_path e a f n"
      using Cons.prems(2) by (rule resolve_same_project)
    then have "resolve_include_path e s f n = Inr (Some r)"
      using assms(4) by simp
    then have "(f, r) \<in> edges (analyze_file_includes e f s)"
      using assms(2) assms(3) analyze_file_includes_adds by blast
    then show ?thesis
      using True analyze_all_grows [of "analyze_file_includes e f s" e fs] by auto
  next
    case False
    then have m: "f \<in> set fs" using Cons.prems(1) by simp
    have pp: "project_path (analyze_file_includes e f' s) = project_path a"
      using Cons.prems(2) by (simp add: analyze_file_includes_project)
    show ?thesis using Cons.IH [OF m pp] by simp
  qed
qed

text \<open>
  Claim C5 as amended: after the files of the catalog have been analyzed, starting from
  an empty graph, every edge leads from a file of the catalog to a path for which the
  file system has answered that it exists or that it is a regular file; the target need
  not be in the catalog. The include that is recognized in a readable catalog file and
  that the resolver resolves to a path gives the edge from the file to that path.
  Processing an include that resolves to a path adds exactly this edge; processing an
  include that resolves to nothing increments the frequency counter of the name and
  changes nothing else.
\<close>

theorem edges_from_catalog_to_existing_paths:
  assumes "include_graph a = []"
  shows "(\<forall>(A, B)\<in>edges (sequential_analyze_files e a).
            A \<in> set (files a) \<and> (fs_exists e B \<or> fs_is_file e B))
       \<and> (\<forall>f content n r.
            f \<in> set (files a) \<longrightarrow> fs_read e f = Some content \<longrightarrow>
            findall_includes content = [n] \<longrightarrow>
            resolve_include_path e a f n = Inr (Some r) \<longrightarrow>
            (f, r) \<in> edges (sequential_analyze_files e a))
       \<and> (\<forall>s f n r.
            resolve_include_path e s f n = Inr (Some r) \<longrightarrow>
            edges (snd (process_include e f n s)) = insert (f, r) (edges s))
       \<and> (\<forall>s f n.
            resolve_include_path e s f n = Inr None \<longrightarrow>
            process_include e f n s
            = (None, s\<lparr>header_frequency :=
                          (header_frequency s)(n := header_frequency s n + 1)\<rparr>))"
proof -
  have "edges a = {}" using assms by (simp add: edges_def)
  then have p1: "\<forall>(A, B)\<in>edges (sequential_analyze_files e a).
            A \<in> set (files a) \<and> (fs_exists e B \<or> fs_is_file e B)"
    using analyze_all_edges [of _ _ e a "files a"]
    by (auto simp: sequential_analyze_files_def)
  have p2: "\<forall>f content n r.
            f \<in> set (files a) \<longrightarrow> fs_read e f = Some content \<longrightarrow>
            findall_includes content = [n] \<longrightarrow>
            resolve_include_path e a f n = Inr (Some r) \<longrightarrow>
            (f, r) \<in> edges (sequential_analyze_files e a)"
    unfolding sequential_analyze_files_def
    using analyze_all_adds [of _ "files a" e _ _ a _ a] by blast
  have p3: "\<forall>s f n r.
            resolve_include_path e s f n = Inr (Some r) \<longrightarrow>
            edges (snd (process_include e f n s)) = insert (f, r) (edges s)"
    by (simp add: process_include_resolved edges_add_edge edges_header_frequency)
  have p4: "\<forall>s f n.
            resolve_include_path e s f n = Inr None \<longrightarrow>
            process_include e f n s
            = (None, s\<lparr>header_frequency :=
                          (header_frequency s)(n := header_frequency s n + 1)\<rparr>)"
    by (simp add: process_include_missed)
  show ?thesis using p1 p2 p3 p4 by blast
qed

theorem edges_from_catalog_to_existing_paths_witness:
  "include_graph
     (discover_files
        (tree_env [''proj'']
           [([''a.cpp''], ''#include '' @ [CHR 0x22] @ ''data.inc'' @ [CHR 0x22]),
            ([''data.inc''], ''1, 2, 3'')] id)
        (init [''proj''] [] default_AnalysisConfig)) = []
   \<and> ([''proj'', ''a.cpp''], [''proj'', ''data.inc''])
       \<in> edges (sequential_analyze_files
                   (tree_env [''proj'']
                      [([''a.cpp''], ''#include '' @ [CHR 0x22] @ ''data.inc'' @ [CHR 0x22]),
                       ([''data.inc''], ''1, 2, 3'')] id)
                   (discover_files
                      (tree_env [''proj'']
                         [([''a.cpp''], ''#include '' @ [CHR 0x22] @ ''data.inc'' @ [CHR 0x22]),
                          ([''data.inc''], ''1, 2, 3'')] id)
                      (init [''proj''] [] default_AnalysisConfig)))
   \<and> [''proj'', ''a.cpp'']
       \<in> set (files (discover_files
                        (tree_env [''proj'']
                           [([''a.cpp''], ''#include '' @ [CHR 0x22] @ ''data.inc'' @ [CHR 0x22]),
                            ([''data.inc''], ''1, 2, 3'')] id)
                        (init [''proj''] [] default_AnalysisConfig)))
   \<and> [''proj'', ''data.inc'']
       \<notin> set (files (discover_files
                        (tree_env [''proj'']
                           [([''a.cpp''], ''#include '' @ [CHR 0x22] @ ''data.inc'' @ [CHR 0x22]),
                            ([''data.inc''], ''1, 2, 3'')] id)
                        (init [''proj''] [] default_AnalysisConfig)))
   \<and> (fs_exists
         (tree_env [''proj'']
            [([''a.cpp''], ''#include '' @ [CHR 0x22] @ ''data.inc'' @ [CHR 0x22]),
             ([''data.inc''], ''1, 2, 3'')] id) [''proj'', ''data.inc'']
       \<or> fs_is_file
         (tree_env [''proj'']
            [([''a.cpp''], ''#include '' @ [CHR 0x22] @ ''data.inc'' @ [CHR 0x22]),
             ([''data.inc''], ''1, 2, 3'')] id) [''proj'', ''data.inc''])
   \<and> process_include
       (tree_env [''proj'']
          [([''a.cpp''], ''#include '' @ [CHR 0x22] @ ''data.inc'' @ [CHR 0x22]),
           ([''data.inc''], ''1, 2, 3'')] id)
       [''proj'', ''a.cpp''] ''gone.h'' (init [''proj''] [] default_AnalysisConfig)
     = (None, (init [''proj''] [] default_AnalysisConfig)
                \<lparr>header_frequency :=
                   (header_frequency (init [''proj''] [] default_AnalysisConfig))
                   (''gone.h'' :=
                      header_frequency (init [''proj''] [] default_AnalysisConfig) ''gone.h''
                      + 1)\<rparr>)"
proof -
  let ?c = "''#include '' @ [CHR 0x22] @ ''data.inc'' @ [CHR 0x22]"
  let ?e = "tree_env [''proj''] [([''a.cpp''], ?c), ([''data.inc''], ''1, 2, 3'')] id"
  let ?i = "init [''proj''] [] default_AnalysisConfig"
  let ?a = "discover_files ?e ?i"
  have h: "include_graph ?a = []" by code_simp
  have m: "[''proj'', ''a.cpp''] \<in> set (files ?a)" by code_simp
  have o: "[''proj'', ''data.inc''] \<notin> set (files ?a)" by code_simp
  have rd: "fs_read ?e [''proj'', ''a.cpp''] = Some ?c" by code_simp
  have fi: "findall_includes ?c = [''data.inc'']" by code_simp
  have rs: "resolve_include_path ?e ?a [''proj'', ''a.cpp''] ''data.inc''
              = Inr (Some [''proj'', ''data.inc''])" by code_simp
  have ms: "resolve_include_path ?e ?i [''proj'', ''a.cpp''] ''gone.h'' = Inr None" by code_simp
  note t = edges_from_catalog_to_existing_paths [OF h, of ?e]
  note t1 = t [THEN conjunct1]
  note t2 = t [THEN conjunct2, THEN conjunct1]
  note t4 = t [THEN conjunct2, THEN conjunct2, THEN conjunct2]
  have edge: "([''proj'', ''a.cpp''], [''proj'', ''data.inc''])
                \<in> edges (sequential_analyze_files ?e ?a)"
    by (rule t2 [rule_format, OF m rd fi rs])
  have "[''proj'', ''a.cpp''] \<in> set (files ?a)
        \<and> (fs_exists ?e [''proj'', ''data.inc''] \<or> fs_is_file ?e [''proj'', ''data.inc''])"
    using bspec [OF t1 edge] by (simp only: prod.case)
  then have ends: "fs_exists ?e [''proj'', ''data.inc''] \<or> fs_is_file ?e [''proj'', ''data.inc'']"
    by (rule conjunct2)
  have miss: "process_include ?e [''proj'', ''a.cpp''] ''gone.h'' ?i
                = (None, ?i\<lparr>header_frequency :=
                            (header_frequency ?i)
                            (''gone.h'' := header_frequency ?i ''gone.h'' + 1)\<rparr>)"
    by (rule t4 [rule_format, OF ms])
  show ?thesis
    using h edge m o ends miss by (intro conjI) assumption+
qed

section \<open>Reverse-dependency counts\<close>


end
